theory Spec2Isabelle
  imports Main "HOL-Library.Char_ord"
begin

section \<open>Strings and the library functions the program calls\<close>

text \<open>
  A Go string is a sequence of bytes; it is modelled as \<^typ>\<open>string\<close>, a list of
  8-bit characters.  The program (\<^verbatim>\<open>cmd/specialize/main.go\<close>) calls a handful of
  functions of the packages \<^verbatim>\<open>strings\<close> and \<^verbatim>\<open>path/filepath\<close>.  They are written
  out here with the behaviour they have on ASCII text, which is what type
  expressions and macro names consist of: a byte \<open>\<ge> 0x80\<close> is neither white
  space, nor a letter that changes case, nor a word separator, and it is passed
  through unchanged (the Unicode tables of the Go library are not part of the
  model).  File paths follow the Unix rules (separator \<^verbatim>\<open>/\<close>, no volume names).
\<close>

subsection \<open>Package strings\<close>

text \<open>\<^verbatim>\<open>strings.Split(s, sep)\<close> for a one-byte separator: all the pieces between
  the separators, so one piece more than there are separators (\<^verbatim>\<open>Split("", ",")\<close>
  is the list holding one empty string).\<close>

fun strings_Split :: "string \<Rightarrow> char \<Rightarrow> string list" where
  "strings_Split [] sep = [[]]"
| "strings_Split (c # cs) sep =
     (if c = sep then [] # strings_Split cs sep
      else (case strings_Split cs sep of
              [] \<Rightarrow> [[c]]
            | p # ps \<Rightarrow> (c # p) # ps))"

text \<open>\<^verbatim>\<open>strings.Join(elems, sep)\<close>.\<close>

fun strings_Join :: "string list \<Rightarrow> string \<Rightarrow> string" where
  "strings_Join [] sep = []"
| "strings_Join [e] sep = e"
| "strings_Join (e # es) sep = e @ sep @ strings_Join es sep"

text \<open>The ASCII white space of \<^verbatim>\<open>strings.TrimSpace\<close>: tab, line feed, vertical tab,
  form feed, carriage return and space.\<close>

definition isSpace :: "char \<Rightarrow> bool" where
  "isSpace c \<longleftrightarrow>
     c = CHR 0x09 \<or> c = CHR 0x0A \<or> c = CHR 0x0B \<or> c = CHR 0x0C \<or> c = CHR 0x0D \<or> c = CHR '' ''"

definition strings_TrimSpace :: "string \<Rightarrow> string" where
  "strings_TrimSpace s = rev (dropWhile isSpace (rev (dropWhile isSpace s)))"

definition isUpper :: "char \<Rightarrow> bool" where
  "isUpper c \<longleftrightarrow> CHR ''A'' \<le> c \<and> c \<le> CHR ''Z''"

definition isLower :: "char \<Rightarrow> bool" where
  "isLower c \<longleftrightarrow> CHR ''a'' \<le> c \<and> c \<le> CHR ''z''"

definition isDigit :: "char \<Rightarrow> bool" where
  "isDigit c \<longleftrightarrow> CHR ''0'' \<le> c \<and> c \<le> CHR ''9''"

text \<open>\<^verbatim>\<open>c += 'a' - 'A'\<close> on an upper-case letter, and its inverse.\<close>

definition toLower :: "char \<Rightarrow> char" where
  "toLower c = (if isUpper c then char_of (of_char c + (32 :: nat)) else c)"

definition toTitle :: "char \<Rightarrow> char" where
  "toTitle c = (if isLower c then char_of (of_char c - (32 :: nat)) else c)"

definition strings_ToLower :: "string \<Rightarrow> string" where
  "strings_ToLower s = map toLower s"

definition strings_HasPrefix :: "string \<Rightarrow> string \<Rightarrow> bool" where
  "strings_HasPrefix s prefix \<longleftrightarrow> take (length prefix) s = prefix"

text \<open>\<^verbatim>\<open>strings.Replace(s, old, new, -1)\<close> where \<open>old\<close> and \<open>new\<close> are one byte
  each, as in every call of the program.\<close>

definition strings_Replace :: "string \<Rightarrow> char \<Rightarrow> char \<Rightarrow> string" where
  "strings_Replace s old new = map (\<lambda>c. if c = old then new else c) s"

text \<open>\<^verbatim>\<open>strings.Index(s, sep)\<close> for a one-byte \<open>sep\<close>: the position of its first
  occurrence, or \<open>-1\<close>.\<close>

definition strings_Index :: "string \<Rightarrow> char \<Rightarrow> int" where
  "strings_Index s sep =
     (if sep \<in> set s then int (length (takeWhile (\<lambda>c. c \<noteq> sep) s)) else - 1)"

text \<open>\<^verbatim>\<open>strings.Title\<close> maps to title case every letter that follows a separator,
  the first letter of the string included (the scan starts with a space as the
  previous character).  The library's \<^verbatim>\<open>isSeparator\<close> says of ASCII that letters,
  digits and the underscore are not separators and everything else is.\<close>

definition isSeparator :: "char \<Rightarrow> bool" where
  "isSeparator r \<longleftrightarrow>
     (if r \<le> CHR 0x7F then \<not> (isDigit r \<or> isLower r \<or> isUpper r \<or> r = CHR ''_'')
      else False)"

fun Title_loop :: "char \<Rightarrow> string \<Rightarrow> string" where
  "Title_loop prev [] = []"
| "Title_loop prev (r # rs) =
     (if isSeparator prev then toTitle r # Title_loop r rs else r # Title_loop r rs)"

definition strings_Title :: "string \<Rightarrow> string" where
  "strings_Title s = Title_loop (CHR '' '') s"

subsection \<open>Package path/filepath\<close>

text \<open>\<^verbatim>\<open>filepath.Clean\<close>, on the elements of the path between the slashes: empty
  elements and \<^verbatim>\<open>.\<close> are dropped, \<^verbatim>\<open>..\<close> removes the element before it when
  there is one that is not itself \<^verbatim>\<open>..\<close>, is dropped at the root, and is kept
  otherwise.  \<open>out\<close> holds the elements written so far, the last one first.\<close>

fun Clean_loop :: "bool \<Rightarrow> string list \<Rightarrow> string list \<Rightarrow> string list" where
  "Clean_loop rooted out [] = rev out"
| "Clean_loop rooted out (e # es) =
     (if e = [] \<or> e = ''.'' then Clean_loop rooted out es
      else if e = ''..'' then
        (case out of
           [] \<Rightarrow> if rooted then Clean_loop rooted [] es else Clean_loop rooted [''..''] es
         | l # ls \<Rightarrow>
             if l \<noteq> ''..'' then Clean_loop rooted ls es
             else if rooted then Clean_loop rooted out es
             else Clean_loop rooted (''..'' # out) es)
      else Clean_loop rooted (e # out) es)"

definition filepath_Clean :: "string \<Rightarrow> string" where
  "filepath_Clean path =
     (if path = [] then ''.''
      else
        let rooted = (hd path = CHR ''/'');
            body = strings_Join (Clean_loop rooted [] (strings_Split path (CHR ''/''))) ''/''
        in if rooted then CHR ''/'' # body
           else if body = [] then ''.'' else body)"

text \<open>\<^verbatim>\<open>filepath.Base\<close>: the last element of the path, trailing slashes removed
  first; \<^verbatim>\<open>.\<close> for the empty path and \<^verbatim>\<open>/\<close> for a path of slashes only.\<close>

definition filepath_Base :: "string \<Rightarrow> string" where
  "filepath_Base path =
     (if path = [] then ''.''
      else
        let stripped = rev (dropWhile (\<lambda>c. c = CHR ''/'') (rev path));
            elem = rev (takeWhile (\<lambda>c. c \<noteq> CHR ''/'') (rev stripped))
        in if elem = [] then ''/'' else elem)"

text \<open>\<^verbatim>\<open>filepath.Dir\<close>: everything up to and including the last slash, cleaned.\<close>

definition filepath_Dir :: "string \<Rightarrow> string" where
  "filepath_Dir path = filepath_Clean (rev (dropWhile (\<lambda>c. c \<noteq> CHR ''/'') (rev path)))"

text \<open>\<^verbatim>\<open>filepath.Join\<close>: the elements from the first non-empty one on, joined by
  slashes and cleaned; the empty string when every element is empty.\<close>

definition filepath_Join :: "string list \<Rightarrow> string" where
  "filepath_Join elem =
     (case dropWhile (\<lambda>e. e = []) elem of
        [] \<Rightarrow> []
      | es \<Rightarrow> filepath_Clean (strings_Join es ''/''))"

section \<open>The program\<close>

subsection \<open>The data handed to the template\<close>

record Z =
  Z_Name :: string
  Z_Type :: string

record Y =
  Y_Name :: string
  Y_Type :: string
  Y_Z :: "Z list"

record X =
  X_Name :: string
  X_Type :: string
  X_Y :: "Y list"

record Top =
  Top_Name :: string
  Top_X :: "X list"

subsection \<open>Macros\<close>

text \<open>The map \<^verbatim>\<open>macros\<close>; a lookup gives \<open>None\<close> where Go's second result is
  \<^verbatim>\<open>false\<close>.\<close>

definition macros :: "string \<Rightarrow> string list option" where
  "macros k =
     (if k = ''integers'' then
        Some [''int'', ''int8'', ''int16'', ''int32'', ''int64'',
              ''uint'', ''uint8'', ''uint16'', ''uint32'', ''uint64'']
      else if k = ''floats'' then Some [''float32'', ''float64'']
      else None)"

subsection \<open>expand\<close>

text \<open>The loop of \<^verbatim>\<open>expand\<close> over the pieces of the split list; \<open>ret\<close> is the
  slice it appends to.\<close>

fun expand_loop :: "string list \<Rightarrow> string list \<Rightarrow> string list" where
  "expand_loop ret [] = ret"
| "expand_loop ret (piece # rest) =
     (let xt = strings_TrimSpace piece in
      if xt = [] then expand_loop ret rest
      else (case macros (strings_ToLower xt) of
              Some exp \<Rightarrow> expand_loop (ret @ exp) rest
            | None \<Rightarrow> expand_loop (ret @ [xt]) rest))"

definition expand :: "string \<Rightarrow> string list" where
  "expand list = expand_loop [] (strings_Split list (CHR '',''))"

subsection \<open>makeName\<close>

text \<open>The number of \<^verbatim>\<open>[]\<close> at the front of a type; it is what the recursion of
  \<^verbatim>\<open>makeName\<close> consumes.\<close>

fun leading_slices :: "string \<Rightarrow> nat" where
  "leading_slices (a # b # t) =
     (if a = CHR ''['' \<and> b = CHR '']'' then Suc (leading_slices t) else 0)"
| "leading_slices t = 0"

function makeName :: "string \<Rightarrow> string" where
  "makeName t =
     (if strings_HasPrefix t ''[]'' then makeName (drop 2 t @ ''Slice'')
      else strings_Title
             (strings_Replace
                (strings_Replace (strings_Replace t (CHR ''.'') (CHR ''_'')) (CHR ''['') (CHR ''_''))
                (CHR '']'') (CHR ''_'')))"
  by pat_completeness auto
termination
proof (relation "measure leading_slices")
  show "wf (measure leading_slices)" by simp
next
  fix t :: string
  assume "strings_HasPrefix t ''[]''"
  then obtain u where t: "t = CHR ''['' # CHR '']'' # u"
    by (cases t; cases "tl t") (auto simp: strings_HasPrefix_def)
  have "leading_slices (v @ ''Slice'') = leading_slices v" for v
    by (induction v rule: leading_slices.induct) simp_all
  with t show "(drop 2 t @ ''Slice'', t) \<in> measure leading_slices"
    by simp
qed

declare makeName.simps [simp del]

subsection \<open>main, up to the point where the template is read\<close>

text \<open>The two calls of \<^verbatim>\<open>log.Fatalf\<close> that precede the construction.\<close>

datatype error = NoTemplateFile | NoSpecializationTypes

text \<open>\<^verbatim>\<open>main\<close> takes the values of the five flags and returns, unless it stops
  with a fatal error, the output file name it settles on and the value \<^verbatim>\<open>top\<close>
  it passes to the template.  The slices of pointers \<^verbatim>\<open>ys\<close> and \<^verbatim>\<open>zs\<close> are built
  once and stored in every parent; nothing writes to them afterwards, so the
  model stores the lists themselves.\<close>

definition main :: "string \<Rightarrow> string \<Rightarrow> string \<Rightarrow> string \<Rightarrow> string \<Rightarrow> error + (string \<times> Top)" where
  "main x y z input output =
     (if input = [] then Inl NoTemplateFile
      else if x = [] then Inl NoSpecializationTypes
      else
        let base = filepath_Base input;
            index = strings_Index base (CHR ''.'');
            name = (if index > 0 then take (nat index) base else base);
            out = (if output = [] then filepath_Join [filepath_Dir input, name @ ''.go'']
                   else output);
            ys = (if y \<noteq> [] then
                    let zs = (if z \<noteq> [] then
                                map (\<lambda>zt. \<lparr>Z_Name = makeName zt, Z_Type = zt\<rparr>) (expand z)
                              else [])
                    in map (\<lambda>yt. \<lparr>Y_Name = makeName yt, Y_Type = yt, Y_Z = zs\<rparr>) (expand y)
                  else []);
            xs = map (\<lambda>xt. \<lparr>X_Name = makeName xt, X_Type = xt, X_Y = ys\<rparr>) (expand x)
        in Inr (out, \<lparr>Top_Name = name, Top_X = xs\<rparr>))"

section \<open>Notions used to state the properties\<close>

text \<open>What one cleaned-up word of a list contributes to the result of \<^verbatim>\<open>expand\<close>: the
  types of the macro it names, or the word itself.\<close>

definition expand_word :: "string \<Rightarrow> string list" where
  "expand_word w = (case macros (strings_ToLower w) of Some exp \<Rightarrow> exp | None \<Rightarrow> [w])"

text \<open>The pieces of a comma-separated list, each trimmed, the empty ones dropped: the
  clean-up that the specification describes as a step before the expansion.\<close>

definition trim_drop_empties :: "string \<Rightarrow> string list" where
  "trim_drop_empties list =
     filter (\<lambda>p. p \<noteq> []) (map strings_TrimSpace (strings_Split list (CHR '','')))"

text \<open>\<^verbatim>\<open>makeName\<close> with a bound on the depth of its calls: \<open>None\<close> when the bound is
  used up before the recursion has ended.\<close>

fun makeName_fuel :: "nat \<Rightarrow> string \<Rightarrow> string option" where
  "makeName_fuel 0 t = None"
| "makeName_fuel (Suc n) t =
     (if strings_HasPrefix t ''[]'' then makeName_fuel n (drop 2 t @ ''Slice'')
      else Some (strings_Title
             (strings_Replace
                (strings_Replace (strings_Replace t (CHR ''.'') (CHR ''_'')) (CHR ''['') (CHR ''_''))
                (CHR '']'') (CHR ''_''))))"


text \<open>Every \<^verbatim>\<open>Name\<close> field of the X, Y and Z entries of a tree, and the number of Z
  entries reached from its X entries.\<close>

definition tree_names :: "Top \<Rightarrow> string list" where
  "tree_names tree =
     concat (map (\<lambda>xe. X_Name xe #
                    concat (map (\<lambda>ye. Y_Name ye # map Z_Name (Y_Z ye)) (X_Y xe)))
                 (Top_X tree))"

definition Z_leaves :: "Top \<Rightarrow> nat" where
  "Z_leaves tree =
     sum_list (map (\<lambda>xe. sum_list (map (\<lambda>ye. length (Y_Z ye)) (X_Y xe))) (Top_X tree))"

section \<open>Lemmas\<close>

subsection \<open>Characters\<close>

lemma isUpper_nat: "isUpper c \<longleftrightarrow> 65 \<le> (of_char c :: nat) \<and> (of_char c :: nat) \<le> 90"
  by (simp add: isUpper_def less_eq_char_def)

lemma isLower_nat: "isLower c \<longleftrightarrow> 97 \<le> (of_char c :: nat) \<and> (of_char c :: nat) \<le> 122"
  by (simp add: isLower_def less_eq_char_def)

lemma letter_plain: "isLower c \<or> isUpper c \<Longrightarrow> c \<noteq> CHR '','' \<and> \<not> isSpace c"
  by (auto simp add: isUpper_nat isLower_nat isSpace_def)

lemma toLower_letter: "isLower (toLower c) \<Longrightarrow> isLower c \<or> isUpper c"
  by (auto simp add: toLower_def)


subsection \<open>Splitting, joining and trimming\<close>

lemma Split_not_Nil: "strings_Split s c \<noteq> []"
  by (induction s) (auto split: list.splits)

lemma Split_no_sep: "c \<notin> set s \<Longrightarrow> strings_Split s c = [s]"
  by (induction s) (auto split: list.splits)



lemma Split_sep_append:
  "strings_Split (a @ c # b) c = strings_Split a c @ strings_Split b c"
  by (induction a) (auto split: list.splits simp: Split_not_Nil)


lemma Join_snoc:
  "strings_Join (es @ [n]) sep = (if es = [] then n else strings_Join es sep @ sep @ n)"
  by (induction es sep rule: strings_Join.induct) auto


lemma TrimSpace_fixed:
  "s = [] \<or> (\<not> isSpace (hd s) \<and> \<not> isSpace (last s)) \<Longrightarrow> strings_TrimSpace s = s"
proof (cases "s = []")
  case True
  then show ?thesis by (simp add: strings_TrimSpace_def)
next
  case False
  assume "s = [] \<or> (\<not> isSpace (hd s) \<and> \<not> isSpace (last s))"
  with False have h: "\<not> isSpace (hd s)" and l: "\<not> isSpace (last s)" by auto
  from h have a: "dropWhile isSpace s = s" by (simp add: dropWhile_eq_self_iff)
  from l False have "dropWhile isSpace (rev s) = rev s"
    by (simp add: dropWhile_eq_self_iff hd_rev)
  with a show ?thesis by (simp add: strings_TrimSpace_def)
qed



subsection \<open>expand\<close>

lemma expand_loop_concat:
  "expand_loop ret ps =
     ret @ concat (map expand_word (filter (\<lambda>p. p \<noteq> []) (map strings_TrimSpace ps)))"
  by (induction ps arbitrary: ret) (auto simp: Let_def expand_word_def split: option.splits)

lemma expand_words: "expand s = concat (map expand_word (trim_drop_empties s))"
  by (simp add: expand_def expand_loop_concat trim_drop_empties_def)


lemma expand_single_word:
  assumes "w \<noteq> []" and "\<forall>c \<in> set w. isLower (toLower c)"
  shows "expand w = expand_word w"
proof -
  have plain: "\<forall>c \<in> set w. c \<noteq> CHR '','' \<and> \<not> isSpace c"
    using assms(2) toLower_letter letter_plain by blast
  then have "CHR '','' \<notin> set w" by blast
  then have split: "strings_Split w (CHR '','') = [w]" by (rule Split_no_sep)
  have "\<not> isSpace (hd w) \<and> \<not> isSpace (last w)"
    using plain assms(1) by simp
  then have "strings_TrimSpace w = w" by (intro TrimSpace_fixed) simp
  with split assms(1) show ?thesis
    by (simp add: expand_words trim_drop_empties_def)
qed

lemma lower_word:
  assumes "strings_ToLower w = m" and "\<forall>c \<in> set m. isLower c"
  shows "\<forall>c \<in> set w. isLower (toLower c)"
proof
  fix c assume "c \<in> set w"
  then have "toLower c \<in> set (strings_ToLower w)" by (simp add: strings_ToLower_def)
  with assms show "isLower (toLower c)" by simp
qed



lemma expand_Nil: "expand [] = []"
  by (simp add: expand_def strings_TrimSpace_def)

lemma expand_ne: "expand s \<noteq> [] \<Longrightarrow> s \<noteq> []"
  using expand_Nil by auto

subsection \<open>makeName\<close>

lemma HasPrefix_slice:
  "strings_HasPrefix t ''[]'' \<longleftrightarrow> (\<exists>u. t = CHR ''['' # CHR '']'' # u)"
  by (cases t; cases "tl t") (auto simp: strings_HasPrefix_def)

lemma leading_slices_Slice: "leading_slices (t @ ''Slice'') = leading_slices t"
  by (induction t rule: leading_slices.induct) simp_all

lemma leading_slices_0: "\<not> strings_HasPrefix t ''[]'' \<Longrightarrow> leading_slices t = 0"
  by (cases t rule: leading_slices.cases) (auto simp: HasPrefix_slice)

lemma leading_slices_rec:
  "strings_HasPrefix t ''[]'' \<Longrightarrow> Suc (leading_slices (drop 2 t @ ''Slice'')) = leading_slices t"
  by (auto simp: HasPrefix_slice leading_slices_Slice)

lemma makeName_fuel_eq:
  "makeName_fuel n t = (if leading_slices t < n then Some (makeName t) else None)"
proof (induction n t rule: makeName_fuel.induct)
  case (1 t)
  then show ?case by simp
next
  case (2 n t)
  show ?case
  proof (cases "strings_HasPrefix t ''[]''")
    case True
    with 2 leading_slices_rec [OF True] show ?thesis
      by (simp add: makeName.simps [of t])
  next
    case False
    then show ?thesis
      by (simp add: makeName.simps [of t] leading_slices_0)
  qed
qed




subsection \<open>Lists, and file names\<close>

lemma sum_list_const: "sum_list (map (\<lambda>_. c) xs) = length xs * (c::nat)"
  by (induction xs) auto

lemma Index_pos_take:
  "0 < strings_Index s c \<Longrightarrow> take (nat (strings_Index s c)) s = takeWhile (\<lambda>d. d \<noteq> c) s"
  by (auto simp: strings_Index_def takeWhile_eq_take [symmetric] split: if_splits)

lemma Index_neg_take:
  "strings_Index s c < 0 \<Longrightarrow> takeWhile (\<lambda>d. d \<noteq> c) s = s"
  by (auto simp: strings_Index_def split: if_splits)

lemma Index_0: "strings_Index s c = 0 \<longleftrightarrow> (\<exists>u. s = c # u)"
  by (cases s) (auto simp: strings_Index_def)

lemma HasPrefix_dot: "strings_HasPrefix s ''.'' \<longleftrightarrow> (\<exists>u. s = CHR ''.'' # u)"
  by (cases s) (auto simp: strings_HasPrefix_def)

lemma name_cut:
  "\<not> strings_HasPrefix b ''.'' \<Longrightarrow>
   (if strings_Index b (CHR ''.'') > 0 then take (nat (strings_Index b (CHR ''.''))) b else b)
     = takeWhile (\<lambda>c. c \<noteq> CHR ''.'') b"
proof -
  assume h: "\<not> strings_HasPrefix b ''.''"
  consider "0 < strings_Index b (CHR ''.'')" | "strings_Index b (CHR ''.'') = 0"
    | "strings_Index b (CHR ''.'') < 0" by linarith
  then show ?thesis
  proof cases
    case 1
    then show ?thesis by (simp add: Index_pos_take)
  next
    case 2
    with h show ?thesis by (simp add: Index_0 HasPrefix_dot)
  next
    case 3
    then show ?thesis by (simp add: Index_neg_take)
  qed
qed

lemma name_cut_dot:
  "strings_HasPrefix b ''.'' \<Longrightarrow>
   (if strings_Index b (CHR ''.'') > 0 then take (nat (strings_Index b (CHR ''.''))) b else b) = b"
  by (auto simp: HasPrefix_dot strings_Index_def)

lemma Clean_loop_snoc:
  "n \<noteq> [] \<Longrightarrow> n \<noteq> ''.'' \<Longrightarrow> n \<noteq> ''..'' \<Longrightarrow>
   Clean_loop r out (es @ [n]) = Clean_loop r out es @ [n]"
  by (induction es arbitrary: out) (auto split: list.splits)

lemma Base_last_elem:
  assumes "n \<noteq> []" and "CHR ''/'' \<notin> set n" and "pre = [] \<or> last pre = CHR ''/''"
  shows "filepath_Base (pre @ n) = n"
proof -
  from assms(1,2) have l: "hd (rev n) \<noteq> CHR ''/''"
    by (metis hd_rev last_in_set)
  then have "dropWhile (\<lambda>c. c = CHR ''/'') (rev n @ rev pre) = rev n @ rev pre"
    using assms(1) by (simp add: dropWhile_eq_self_iff)
  moreover have "takeWhile (\<lambda>c. c \<noteq> CHR ''/'') (rev n @ rev pre) = rev n"
  proof (cases "pre = []")
    case True
    with assms(2) show ?thesis by auto
  next
    case False
    with assms(3) obtain q where "pre = q @ [CHR ''/'']"
      by (metis append_butlast_last_id)
    then have "rev pre = CHR ''/'' # rev q" by simp
    moreover have "takeWhile (\<lambda>c. c \<noteq> CHR ''/'') (rev n @ CHR ''/'' # rev q)
        = takeWhile (\<lambda>c. c \<noteq> CHR ''/'') (rev n)"
      by (rule takeWhile_tail) simp
    moreover have "takeWhile (\<lambda>c. c \<noteq> CHR ''/'') (rev n) = rev n"
      using assms(2) by auto
    ultimately show ?thesis by simp
  qed
  ultimately show ?thesis using assms(1)
    by (simp add: filepath_Base_def Let_def)
qed

lemma Clean_not_Nil: "filepath_Clean p \<noteq> []"
  by (simp add: filepath_Clean_def Let_def)

lemma Base_Join:
  assumes "d \<noteq> []" and "n \<noteq> []" and "n \<noteq> ''.''" and "n \<noteq> ''..''" and "CHR ''/'' \<notin> set n"
  shows "filepath_Base (filepath_Join [d, n]) = n"
proof -
  define p where "p = d @ CHR ''/'' # n"
  define r where "r = (hd p = CHR ''/'')"
  define es where "es = Clean_loop r [] (strings_Split d (CHR ''/''))"
  define pre where "pre = (if es = [] then [] else strings_Join es ''/'' @ ''/'')"
  have pne: "p \<noteq> []" by (simp add: p_def)
  have j: "filepath_Join [d, n] = filepath_Clean p"
    using assms(1) by (simp add: filepath_Join_def p_def)
  have "strings_Split p (CHR ''/'') = strings_Split d (CHR ''/'') @ strings_Split n (CHR ''/'')"
    unfolding p_def by (rule Split_sep_append)
  then have "strings_Split p (CHR ''/'') = strings_Split d (CHR ''/'') @ [n]"
    using assms(5) by (simp add: Split_no_sep)
  then have loop: "Clean_loop r [] (strings_Split p (CHR ''/'')) = es @ [n]"
    using assms(2,3,4) by (simp add: Clean_loop_snoc es_def)
  have body: "strings_Join (es @ [n]) ''/'' = pre @ n"
    by (simp add: Join_snoc pre_def)
  have "pre @ n \<noteq> []" using assms(2) by simp
  have c: "filepath_Clean p = (if r then CHR ''/'' # pre else pre) @ n"
  proof (cases r)
    case True
    with loop have "Clean_loop True [] (strings_Split p (CHR ''/'')) = es @ [n]" by simp
    moreover from True have "hd p = CHR ''/''" by (simp add: r_def)
    ultimately show ?thesis using pne True body
      by (simp add: filepath_Clean_def Let_def)
  next
    case False
    with loop have "Clean_loop False [] (strings_Split p (CHR ''/'')) = es @ [n]" by simp
    moreover from False have "hd p \<noteq> CHR ''/''" by (simp add: r_def)
    ultimately show ?thesis using pne False body \<open>pre @ n \<noteq> []\<close>
      by (simp add: filepath_Clean_def Let_def)
  qed
  have "pre = [] \<or> last pre = CHR ''/''" by (simp add: pre_def)
  then have "(if r then CHR ''/'' # pre else pre) = [] \<or> last (if r then CHR ''/'' # pre else pre) = CHR ''/''"
    by auto
  with assms(2,5) have "filepath_Base ((if r then CHR ''/'' # pre else pre) @ n) = n"
    by (rule Base_last_elem)
  then show ?thesis using j c by simp
qed

lemma Base_no_slash: "filepath_Base p = ''/'' \<or> CHR ''/'' \<notin> set (filepath_Base p)"
proof -
  have "CHR ''/'' \<notin> set (takeWhile (\<lambda>c. c \<noteq> CHR ''/'') xs)" for xs
    by (induction xs) auto
  then show ?thesis by (auto simp: filepath_Base_def Let_def)
qed

lemma Dir_no_slash: "CHR ''/'' \<notin> set p \<Longrightarrow> filepath_Dir p = ''.''"
proof -
  assume "CHR ''/'' \<notin> set p"
  then have "dropWhile (\<lambda>c. c \<noteq> CHR ''/'') (rev p) = []" by auto
  then show ?thesis by (simp add: filepath_Dir_def filepath_Clean_def)
qed

lemma Base_plain: "p \<noteq> [] \<Longrightarrow> CHR ''/'' \<notin> set p \<Longrightarrow> filepath_Base p = p"
  using Base_last_elem [of p "[]"] by simp

lemma Join_dot:
  assumes "n \<noteq> []" and "n \<noteq> ''.''" and "n \<noteq> ''..''" and "CHR ''/'' \<notin> set n"
  shows "filepath_Join [''.'', n] = n"
proof -
  have "strings_Split (''.'' @ CHR ''/'' # n) (CHR ''/'')
      = strings_Split ''.'' (CHR ''/'') @ strings_Split n (CHR ''/'')"
    by (rule Split_sep_append)
  then have "strings_Split (CHR ''.'' # CHR ''/'' # n) (CHR ''/'') = [''.'', n]"
    using assms(4) by (simp add: Split_no_sep)
  then show ?thesis using assms
    by (simp add: filepath_Join_def filepath_Clean_def)
qed

section \<open>The properties\<close>

text \<open>C1: when the X list (the expansion of \<^verbatim>\<open>-x\<close>), the Y list and the Z list are all
  non-empty, of sizes \<open>m\<close>, \<open>n\<close> and \<open>p\<close>, \<^verbatim>\<open>main\<close> builds a tree with exactly
  \<open>m\<close> X entries, in the order of the list; every X entry carries the same
  sequence of \<open>n\<close> Y entries, every Y entry carries the same sequence of \<open>p\<close> Z
  entries, and the tree has \<open>m * n * p\<close> Z entries in all.\<close>

theorem main_cross_product:
  assumes "input \<noteq> []" and "expand x \<noteq> []" and "expand y \<noteq> []" and "expand z \<noteq> []"
  shows "\<exists>out tree ys zs.
           main x y z input output = Inr (out, tree)
         \<and> zs = map (\<lambda>zt. \<lparr>Z_Name = makeName zt, Z_Type = zt\<rparr>) (expand z)
         \<and> ys = map (\<lambda>yt. \<lparr>Y_Name = makeName yt, Y_Type = yt, Y_Z = zs\<rparr>) (expand y)
         \<and> map X_Type (Top_X tree) = expand x
         \<and> length (Top_X tree) = length (expand x)
         \<and> (\<forall>xe \<in> set (Top_X tree). X_Y xe = ys)
         \<and> length ys = length (expand y)
         \<and> (\<forall>ye \<in> set ys. Y_Z ye = zs)
         \<and> length zs = length (expand z)
         \<and> Z_leaves tree = length (expand x) * length (expand y) * length (expand z)"
proof -
  from assms have ne: "x \<noteq> []" "y \<noteq> []" "z \<noteq> []"
    by (auto dest: expand_ne)
  with assms(1) show ?thesis
    by (simp add: main_def Let_def Z_leaves_def comp_def sum_list_const)
qed

text \<open>The tree for \<^verbatim>\<open>-x=int,float32 -y=integers -z="[]byte, foo.Baz"\<close>: two X entries
  and \<open>2 * 10 * 2\<close> Z entries.\<close>

theorem main_cross_product_witness:
  "''list.tmpl'' \<noteq> [] \<and> expand ''int,float32'' \<noteq> [] \<and> expand ''integers'' \<noteq> []
   \<and> expand ''[]byte, foo.Baz'' \<noteq> []
   \<and> (\<exists>out tree. main ''int,float32'' ''integers'' ''[]byte, foo.Baz'' ''list.tmpl'' [] = Inr (out, tree)
         \<and> map X_Type (Top_X tree) = [''int'', ''float32'']
         \<and> length (Top_X tree) = 2
         \<and> Z_leaves tree = 2 * 10 * 2)"
proof -
  have h1: "''list.tmpl'' \<noteq> []" by simp
  have x: "expand ''int,float32'' = [''int'', ''float32'']" by code_simp
  have y: "length (expand ''integers'') = 10" by code_simp
  have z: "length (expand ''[]byte, foo.Baz'') = 2" by code_simp
  have h2: "expand ''int,float32'' \<noteq> []" using x by simp
  have h3: "expand ''integers'' \<noteq> []" using y by auto
  have h4: "expand ''[]byte, foo.Baz'' \<noteq> []" using z by auto
  from main_cross_product [OF h1 h2 h3 h4, of "[]"] obtain out tree where
    "main ''int,float32'' ''integers'' ''[]byte, foo.Baz'' ''list.tmpl'' [] = Inr (out, tree)"
    "map X_Type (Top_X tree) = expand ''int,float32''"
    "length (Top_X tree) = length (expand ''int,float32'')"
    "Z_leaves tree = length (expand ''int,float32'') * length (expand ''integers'')
        * length (expand ''[]byte, foo.Baz'')"
    by blast
  then show ?thesis using h1 h2 h3 h4 x y z by simp
qed

text \<open>C2: \<^verbatim>\<open>expand\<close> maps the macro name \<^verbatim>\<open>integers\<close> to the ten integer types and
  \<^verbatim>\<open>floats\<close> to the two floating-point types, in the order of the table, and
  the macro name is matched whatever its case: any word that \<^verbatim>\<open>strings.ToLower\<close>
  maps to the macro name (\<^verbatim>\<open>Integers\<close> for one) expands to the same lower-case
  type names.\<close>

theorem expand_macros:
  "expand ''integers'' = [''int'', ''int8'', ''int16'', ''int32'', ''int64'',
                          ''uint'', ''uint8'', ''uint16'', ''uint32'', ''uint64'']
   \<and> expand ''floats'' = [''float32'', ''float64'']
   \<and> expand ''Integers'' = expand ''integers''
   \<and> (strings_ToLower w = ''integers'' \<longrightarrow> expand w = expand ''integers'')
   \<and> (strings_ToLower w = ''floats'' \<longrightarrow> expand w = expand ''floats'')"
proof -
  have i: "expand ''integers'' = [''int'', ''int8'', ''int16'', ''int32'', ''int64'',
                          ''uint'', ''uint8'', ''uint16'', ''uint32'', ''uint64'']"
    by code_simp
  have f: "expand ''floats'' = [''float32'', ''float64'']"
    by code_simp
  have I: "expand ''Integers'' = expand ''integers''"
    by code_simp
  have li: "\<forall>c \<in> set ''integers''. isLower c" by (simp add: isLower_nat)
  have lf: "\<forall>c \<in> set ''floats''. isLower c" by (simp add: isLower_nat)
  have gi: "expand w = expand ''integers''" if h: "strings_ToLower w = ''integers''"
  proof -
    from h have ne: "w \<noteq> []" by (auto simp: strings_ToLower_def)
    have "expand w = expand_word w"
      using ne lower_word [OF h li] by (rule expand_single_word)
    then show ?thesis using h i by (simp add: expand_word_def macros_def)
  qed
  have gf: "expand w = expand ''floats''" if h: "strings_ToLower w = ''floats''"
  proof -
    from h have ne: "w \<noteq> []" by (auto simp: strings_ToLower_def)
    have "expand w = expand_word w"
      using ne lower_word [OF h lf] by (rule expand_single_word)
    then show ?thesis using h f by (simp add: expand_word_def macros_def)
  qed
  from i f I gi gf show ?thesis by blast
qed

text \<open>Two spellings of the macro names in mixed and in upper case.\<close>

theorem expand_macros_witness:
  "strings_ToLower ''iNtEgErS'' = ''integers'' \<and> expand ''iNtEgErS'' = expand ''integers''
   \<and> strings_ToLower ''FLOATS'' = ''floats'' \<and> expand ''FLOATS'' = expand ''floats''"
proof -
  have a: "strings_ToLower ''iNtEgErS'' = ''integers''" by code_simp
  have b: "strings_ToLower ''FLOATS'' = ''floats''" by code_simp
  from a b expand_macros [of "''iNtEgErS''"] expand_macros [of "''FLOATS''"] show ?thesis by blast
qed

text \<open>C3 (as the specification states it): \<^verbatim>\<open>makeName("a.b.c")\<close> would be \<^verbatim>\<open>A_B_C\<close>, every
  component capitalized.  The program does not return that: the dots are
  replaced by underscores before \<^verbatim>\<open>strings.Title\<close> runs, and an underscore is not
  a word separator for \<^verbatim>\<open>Title\<close>, so only the first letter is capitalized.\<close>

theorem makeName_qualified_not_all_capitalized:
  "makeName ''a.b.c'' \<noteq> ''A_B_C''"
  by code_simp

text \<open>C3 (amended): \<^verbatim>\<open>makeName("a.b.c")\<close> is \<^verbatim>\<open>A_b_c\<close>: every dot becomes an underscore
  and the first letter alone is capitalized.\<close>

theorem makeName_qualified:
  "makeName ''a.b.c'' = ''A_b_c''"
  by code_simp

text \<open>C4: a leading slice prefix is handled by recursion: \<^verbatim>\<open>makeName("[]byte")\<close> is
  \<^verbatim>\<open>ByteSlice\<close> and \<^verbatim>\<open>makeName("[][]int")\<close> is \<^verbatim>\<open>IntSliceSlice\<close>.\<close>

theorem makeName_slices:
  "makeName ''[]byte'' = ''ByteSlice'' \<and> makeName ''[][]int'' = ''IntSliceSlice''"
  by code_simp



text \<open>C6: when the Y list is empty, whatever the Z list is, \<^verbatim>\<open>main\<close> returns a tree
  and no error; every X entry has an empty Y sequence, the tree holds no Z
  entry (its names are those of the X entries), and the result is the one for
  an empty \<^verbatim>\<open>-z\<close>: the Z list is ignored.\<close>

theorem main_z_without_y:
  assumes "input \<noteq> []" and "x \<noteq> []" and "expand y = []"
  shows "\<exists>out tree.
           main x y z input output = Inr (out, tree)
         \<and> (\<forall>xe \<in> set (Top_X tree). X_Y xe = [])
         \<and> Z_leaves tree = 0
         \<and> tree_names tree = map makeName (expand x)
         \<and> main x y z input output = main x y [] input output"
  using assms by (simp add: main_def Let_def Z_leaves_def tree_names_def comp_def)

text \<open>A run with \<^verbatim>\<open>-y=" , "\<close>, which expands to the empty list, and \<^verbatim>\<open>-z=a,b\<close>.\<close>

theorem main_z_without_y_witness:
  "''list.tmpl'' \<noteq> [] \<and> ''int'' \<noteq> [] \<and> expand '' , '' = [] \<and> expand ''a,b'' \<noteq> []
   \<and> (\<exists>out tree. main ''int'' '' , '' ''a,b'' ''list.tmpl'' [] = Inr (out, tree)
         \<and> Z_leaves tree = 0 \<and> tree_names tree = [''Int''])"
proof -
  have h1: "''list.tmpl'' \<noteq> []" by simp
  have h2: "''int'' \<noteq> []" by simp
  have h3: "expand '' , '' = []" by code_simp
  have z: "expand ''a,b'' \<noteq> []" by code_simp
  have n: "map makeName (expand ''int'') = [''Int'']" by code_simp
  from main_z_without_y [OF h1 h2 h3, of "''a,b''" "[]"] n h1 h2 h3 z show ?thesis by auto
qed



text \<open>C8: \<^verbatim>\<open>makeName\<close> returns on every string.  A call on a string with a leading
  \<^verbatim>\<open>[]\<close> recurses on a string with fewer leading \<^verbatim>\<open>[]\<close>, since the \<^verbatim>\<open>Slice\<close>
  appended at the end adds none; so the recursion ends after as many calls as
  the string has leading \<^verbatim>\<open>[]\<close>: a bound of one more than that number is
  enough, and a bound of that number or less is not.\<close>

theorem makeName_terminates:
  "(strings_HasPrefix t ''[]'' \<longrightarrow>
      leading_slices (drop 2 t @ ''Slice'') < leading_slices t)
   \<and> leading_slices (t @ ''Slice'') = leading_slices t
   \<and> makeName_fuel (Suc (leading_slices t)) t = Some (makeName t)
   \<and> (\<forall>n. makeName_fuel n t = None \<longleftrightarrow> n \<le> leading_slices t)"
  using leading_slices_rec [of t]
  by (auto simp: makeName_fuel_eq leading_slices_Slice simp del: makeName_fuel.simps)

text \<open>The string \<^verbatim>\<open>[][]int\<close>, with two leading slice prefixes.\<close>

theorem makeName_terminates_witness:
  "strings_HasPrefix ''[][]int'' ''[]''
   \<and> leading_slices (drop 2 ''[][]int'' @ ''Slice'') < leading_slices ''[][]int''
   \<and> leading_slices ''[][]int'' = 2
   \<and> makeName_fuel 3 ''[][]int'' = Some ''IntSliceSlice''
   \<and> makeName_fuel 2 ''[][]int'' = None"
proof -
  have h: "strings_HasPrefix ''[][]int'' ''[]''" by code_simp
  have l: "leading_slices ''[][]int'' = 2" by simp
  have n: "makeName ''[][]int'' = ''IntSliceSlice''" by code_simp
  have "makeName_fuel (Suc (leading_slices ''[][]int'')) ''[][]int'' = Some (makeName ''[][]int'')"
    and "makeName_fuel 2 ''[][]int'' = None \<longleftrightarrow> 2 \<le> leading_slices ''[][]int''"
    and "leading_slices (drop 2 ''[][]int'' @ ''Slice'') < leading_slices ''[][]int''"
    using makeName_terminates [of "''[][]int''"] h by blast+
  then show ?thesis using h l n by (simp add: numeral_3_eq_3 del: makeName_fuel.simps)
qed

text \<open>C9: without \<^verbatim>\<open>-output\<close>, the output file is the directory of the input joined
  with the base name of the input, cut at its first dot, plus \<^verbatim>\<open>.go\<close> (a base
  name that starts with a dot is not cut, see C10).  For
  \<^verbatim>\<open>-input=pkg/foo.go.tmpl\<close> it is \<^verbatim>\<open>pkg/foo.go\<close>.\<close>

theorem main_default_output:
  "(input \<noteq> [] \<and> x \<noteq> [] \<longrightarrow>
      (\<exists>tree. main x y z input [] =
         Inr (filepath_Join [filepath_Dir input,
                (if strings_HasPrefix (filepath_Base input) ''.'' then filepath_Base input
                 else takeWhile (\<lambda>c. c \<noteq> CHR ''.'') (filepath_Base input)) @ ''.go''], tree)))
   \<and> (x \<noteq> [] \<longrightarrow> (\<exists>tree. main x y z ''pkg/foo.go.tmpl'' [] = Inr (''pkg/foo.go'', tree)))"
proof -
  have b: "filepath_Base ''pkg/foo.go.tmpl'' = ''foo.go.tmpl''" by code_simp
  have i: "strings_Index ''foo.go.tmpl'' (CHR ''.'') = 3" by code_simp
  have j: "filepath_Join [filepath_Dir ''pkg/foo.go.tmpl'', ''foo.go''] = ''pkg/foo.go''"
    by code_simp
  have "\<exists>tree. main x y z ''pkg/foo.go.tmpl'' [] = Inr (''pkg/foo.go'', tree)" if "x \<noteq> []"
    using that by (simp add: main_def Let_def b i j)
  moreover have "\<exists>tree. main x y z input [] =
         Inr (filepath_Join [filepath_Dir input,
                (if strings_HasPrefix (filepath_Base input) ''.'' then filepath_Base input
                 else takeWhile (\<lambda>c. c \<noteq> CHR ''.'') (filepath_Base input)) @ ''.go''], tree)"
    if "input \<noteq> []" "x \<noteq> []"
  proof (cases "strings_HasPrefix (filepath_Base input) ''.''")
    case True
    with that name_cut_dot [OF True] show ?thesis by (simp add: main_def Let_def)
  next
    case False
    with that name_cut [OF False] show ?thesis by (simp add: main_def Let_def)
  qed
  ultimately show ?thesis by blast
qed

text \<open>An input whose directory needs cleaning, and the example of the specification.\<close>

theorem main_default_output_witness:
  "''a/b/../tmpl/gen.x.tmpl'' \<noteq> [] \<and> ''int'' \<noteq> []
   \<and> (\<exists>tree. main ''int'' [] [] ''a/b/../tmpl/gen.x.tmpl'' [] = Inr (''a/tmpl/gen.go'', tree))
   \<and> (\<exists>tree. main ''int'' [] [] ''pkg/foo.go.tmpl'' [] = Inr (''pkg/foo.go'', tree))"
proof -
  have h1: "''a/b/../tmpl/gen.x.tmpl'' \<noteq> []" by simp
  have h2: "''int'' \<noteq> []" by simp
  have j: "filepath_Join [filepath_Dir ''a/b/../tmpl/gen.x.tmpl'',
             (if strings_HasPrefix (filepath_Base ''a/b/../tmpl/gen.x.tmpl'') ''.''
              then filepath_Base ''a/b/../tmpl/gen.x.tmpl''
              else takeWhile (\<lambda>c. c \<noteq> CHR ''.'') (filepath_Base ''a/b/../tmpl/gen.x.tmpl'')) @ ''.go'']
           = ''a/tmpl/gen.go''" by code_simp
  from main_default_output [of "''a/b/../tmpl/gen.x.tmpl''" "''int''" "[]" "[]"] h1 h2 j
  show ?thesis by auto
qed

text \<open>C10: when the first dot of the base name of the input is its first character,
  nothing is cut off: \<^verbatim>\<open>Top.Name\<close> is the whole base name and the default output
  file is the directory of the input joined with the base name plus \<^verbatim>\<open>.go\<close>.
  The last element of that path is the base name plus \<^verbatim>\<open>.go\<close>, and for an
  input without a directory the path is the input plus \<^verbatim>\<open>.go\<close>.\<close>

theorem main_dot_file:
  assumes "input \<noteq> []" and "x \<noteq> []"
    and "strings_Index (filepath_Base input) (CHR ''.'') = 0"
  shows "\<exists>out tree.
           main x y z input [] = Inr (out, tree)
         \<and> Top_Name tree = filepath_Base input
         \<and> out = filepath_Join [filepath_Dir input, filepath_Base input @ ''.go'']
         \<and> filepath_Base out = filepath_Base input @ ''.go''
         \<and> (CHR ''/'' \<notin> set input \<longrightarrow> out = input @ ''.go'')"
proof -
  let ?b = "filepath_Base input"
  let ?n = "?b @ ''.go''"
  from assms(3) obtain u where b: "?b = CHR ''.'' # u" by (auto simp: Index_0)
  then have ns: "CHR ''/'' \<notin> set ?b" using Base_no_slash [of input] by auto
  have n: "?n \<noteq> []" "?n \<noteq> ''.''" "?n \<noteq> ''..''" "CHR ''/'' \<notin> set ?n"
    using ns b by auto
  have m: "main x y z input [] =
      Inr (filepath_Join [filepath_Dir input, ?n],
           \<lparr>Top_Name = ?b, Top_X = map (\<lambda>xt. \<lparr>X_Name = makeName xt, X_Type = xt, X_Y =
              (if y \<noteq> [] then
                    let zs = (if z \<noteq> [] then
                                map (\<lambda>zt. \<lparr>Z_Name = makeName zt, Z_Type = zt\<rparr>) (expand z)
                              else [])
                    in map (\<lambda>yt. \<lparr>Y_Name = makeName yt, Y_Type = yt, Y_Z = zs\<rparr>) (expand y)
                  else [])\<rparr>) (expand x)\<rparr>)"
    using assms by (simp add: main_def Let_def)
  have d: "filepath_Dir input \<noteq> []" by (simp add: filepath_Dir_def Clean_not_Nil)
  have B: "filepath_Base (filepath_Join [filepath_Dir input, ?n]) = ?n"
    using d n by (rule Base_Join)
  have P: "filepath_Join [filepath_Dir input, ?n] = input @ ''.go''" if "CHR ''/'' \<notin> set input"
    using that assms(1) n by (simp add: Dir_no_slash Base_plain Join_dot)
  from m B P show ?thesis by simp
qed

text \<open>The dot-file \<^verbatim>\<open>.foo.go.tmpl\<close>.\<close>

theorem main_dot_file_witness:
  "''.foo.go.tmpl'' \<noteq> [] \<and> ''int'' \<noteq> []
   \<and> strings_Index (filepath_Base ''.foo.go.tmpl'') (CHR ''.'') = 0
   \<and> (\<exists>tree. main ''int'' [] [] ''.foo.go.tmpl'' [] = Inr (''.foo.go.tmpl.go'', tree)
          \<and> Top_Name tree = ''.foo.go.tmpl'')"
proof -
  have h1: "''.foo.go.tmpl'' \<noteq> []" by simp
  have h2: "''int'' \<noteq> []" by simp
  have b: "filepath_Base ''.foo.go.tmpl'' = ''.foo.go.tmpl''" by code_simp
  have h3: "strings_Index (filepath_Base ''.foo.go.tmpl'') (CHR ''.'') = 0" by code_simp
  from main_dot_file [OF h1 h2 h3, of "[]" "[]"] b h3 show ?thesis by auto
qed

end
